theory Spec2Isabelle
  imports Main "HOL-Library.Word" "HOL-Library.AList"
begin

unbundle bit_operations_syntax

section \<open>Go values shared by the packages\<close>

type_synonym byte = "8 word"

text \<open>
  A Go byte slice is a window on a backing array: \<open>vis\<close> holds the \<open>len\<close> bytes the
  slice shows, \<open>spare\<close> the bytes of the backing array behind them, up to the capacity.
  Indexing is checked against the length, re-slicing \<open>s[lo:hi]\<close> against the capacity,
  so a re-slice may show bytes that the slice it is taken from does not.
\<close>

record slice =
  vis :: "byte list"
  spare :: "byte list"

definition len :: "slice \<Rightarrow> nat" where
  "len s = length (vis s)"

definition cap :: "slice \<Rightarrow> nat" where
  "cap s = length (vis s) + length (spare s)"

text \<open>\<open>s[i]\<close>: \<open>None\<close> is the runtime panic "index out of range".\<close>

definition index :: "slice \<Rightarrow> nat \<Rightarrow> byte option" where
  "index s i = (if i < len s then Some (vis s ! i) else None)"

text \<open>\<open>s[lo:hi]\<close>: \<open>None\<close> is the runtime panic "slice bounds out of range".\<close>

definition reslice :: "slice \<Rightarrow> nat \<Rightarrow> nat \<Rightarrow> slice option" where
  "reslice s lo hi =
     (if lo \<le> hi \<and> hi \<le> cap s
      then Some \<lparr>vis = take (hi - lo) (drop lo (vis s @ spare s)),
                 spare = drop hi (vis s @ spare s)\<rparr>
      else None)"

text \<open>\<open>s[lo:]\<close>, which is \<open>s[lo:len(s)]\<close>.\<close>

definition slice_from :: "slice \<Rightarrow> nat \<Rightarrow> slice option" where
  "slice_from s lo = reslice s lo (len s)"

text \<open>
  How a call ends when it does not return normally: \<open>Err\<close> is a non-nil \<open>error\<close>
  handed back to the caller, \<open>Panic\<close> an explicit \<open>panic(...)\<close> or a runtime panic,
  \<open>Fatal\<close> a \<open>log.Fatal\<close>, which exits the process. A call returning normally is
  \<open>Inr\<close> of its results.
\<close>

datatype fault = Err string | Panic string | Fatal string

definition index_out_of_range :: fault where
  "index_out_of_range = Panic ''runtime error: index out of range''"

definition slice_bounds_out_of_range :: fault where
  "slice_bounds_out_of_range = Panic ''runtime error: slice bounds out of range''"

section \<open>Package bolt: messages\<close>

datatype Type =
    ResetMsg | RunMsg | DiscardMsg | PullMsg | RecordMsg | SuccessMsg | IgnoreMsg
  | FailureMsg | HelloMsg | GoodbyeMsg | BeginMsg | CommitMsg | RollbackMsg
  | UnknownMsg | NopMsg

record Message =
  T :: Type
  Data :: slice

definition TypeFromByte :: "byte \<Rightarrow> Type" where
  "TypeFromByte b =
     (if b = 0x0f then ResetMsg
      else if b = 0x10 then RunMsg
      else if b = 0x2f then DiscardMsg
      else if b = 0x3f then PullMsg
      else if b = 0x71 then RecordMsg
      else if b = 0x70 then SuccessMsg
      else if b = 0x7e then IgnoreMsg
      else if b = 0x7f then FailureMsg
      else if b = 0x01 then HelloMsg
      else if b = 0x02 then GoodbyeMsg
      else if b = 0x11 then BeginMsg
      else if b = 0x12 then CommitMsg
      else if b = 0x13 then RollbackMsg
      else UnknownMsg)"

text \<open>The three index reads are below the length the first test establishes.\<close>

definition IdentifyType :: "slice \<Rightarrow> Type" where
  "IdentifyType buf =
     (if len buf < 4 then NopMsg
      else if vis buf ! 0 = 0x0 then TypeFromByte (vis buf ! 3)
      else TypeFromByte (vis buf ! 2))"

text \<open>
  \<open>binary.BigEndian.Uint16(b)\<close>: its bounds check \<open>_ = b[1]\<close> panics on fewer than
  two bytes.
\<close>

definition Uint16 :: "slice \<Rightarrow> fault + 16 word" where
  "Uint16 b =
     (if len b < 2 then Inl index_out_of_range
      else Inr (ucast (vis b ! 1) OR push_bit 8 (ucast (vis b ! 0))))"

text \<open>\<open>bytes.HasSuffix(msg, []byte{0x00, 0x00})\<close>.\<close>

definition HasSuffix00 :: "slice \<Rightarrow> bool" where
  "HasSuffix00 msg = (len msg \<ge> 2 \<and> drop (len msg - 2) (vis msg) = [0x00, 0x00])"

text \<open>
  The loop of \<open>Parse\<close>, with its variables \<open>i\<close> and \<open>messages\<close>. The result is the
  pair of the messages and \<open>chunk\<close>, where \<open>None\<close> is the nil slice \<open>chunk\<close> stays at
  when the loop ends without \<open>break\<close>. The returned error is nil on every path that
  returns: the \<open>return\<close> with "bad message: missing suffix" stands behind a
  \<open>panic\<close> and is never reached.
\<close>

function Parse_loop :: "slice \<Rightarrow> nat \<Rightarrow> Message list \<Rightarrow> fault + (Message list \<times> slice option)" where
  "Parse_loop buf i messages =
     (if i < len buf then
        (case reslice buf i (i + 2) of
           None \<Rightarrow> Inl slice_bounds_out_of_range
         | Some hdr \<Rightarrow>
            (case Uint16 hdr of
               Inl f \<Rightarrow> Inl f
             | Inr w \<Rightarrow>
                if unat w + i + 4 > len buf then
                  (case slice_from buf i of
                     None \<Rightarrow> Inl slice_bounds_out_of_range
                   | Some chunk \<Rightarrow> Inr (messages, Some chunk))
                else
                  (case reslice buf i (i + unat w + 4) of
                     None \<Rightarrow> Inl slice_bounds_out_of_range
                   | Some msg \<Rightarrow>
                      if \<not> HasSuffix00 msg then Inl (Panic ''DEBUG [bad message]'')
                      else Parse_loop buf (i + len msg)
                             (messages @ [\<lparr>T = IdentifyType msg, Data = msg\<rparr>]))))
      else Inr (messages, None))"
  by pat_completeness auto
termination
proof (relation "measure (\<lambda>(buf, i, messages). len buf - i)")
  show "wf (measure (\<lambda>(buf, i, messages). len buf - i))" by simp
next
  fix buf :: slice and i :: nat and messages :: "Message list"
    and hdr :: slice and w :: "16 word" and msg :: slice
  assume "i < len buf" and "\<not> len buf < unat w + i + 4"
    and m: "reslice buf i (i + unat w + 4) = Some msg"
  from m have "len msg = unat w + 4"
    by (auto simp: reslice_def len_def cap_def split: if_splits)
  with \<open>i < len buf\<close>
  show "((buf, i + len msg, messages @ [\<lparr>T = IdentifyType msg, Data = msg\<rparr>]), (buf, i, messages))
          \<in> measure (\<lambda>(buf, i, messages). len buf - i)"
    by simp
qed

declare Parse_loop.simps [simp del]

definition Parse :: "slice \<Rightarrow> fault + (Message list \<times> slice option)" where
  "Parse buf = Parse_loop buf 0 []"


section \<open>Package bolt: the PackStream reader\<close>

text \<open>A Go string made of the bytes of a slice, as \<open>fmt.Sprintf("%s", b)\<close> makes it.\<close>

definition gostring :: "byte list \<Rightarrow> string" where
  "gostring bs = map (\<lambda>b. char_of (unat b)) bs"

text \<open>
  The values an \<open>interface{}\<close> of a decoded map holds: an \<open>int\<close>, a \<open>string\<close>, a
  \<open>[]interface{}\<close>, whose entries are nil (\<open>None\<close>) until they are assigned, or a
  \<open>map[string]interface{}\<close>. A map is the list of its entries; \<open>result[name] = val\<close> is
  \<open>AList.update\<close> and a lookup is \<open>map_of\<close>.
\<close>

datatype pval = PInt int | PStr string | PArr "pval option list" | PMap "(string \<times> pval) list"

text \<open>\<open>panic(err)\<close> on an error a callee returned; a callee's own panic goes on as it is.\<close>

definition as_panic :: "fault \<Rightarrow> fault" where
  "as_panic f = (case f of Err m \<Rightarrow> Panic m | _ \<Rightarrow> f)"

text \<open>
  Each parser returns its value and the number of bytes it read. On an error return the
  source hands back partial results beside the error; no caller reads them, and the model
  keeps the error alone.
\<close>

definition ParseTinyInt :: "byte \<Rightarrow> fault + int" where
  "ParseTinyInt b = (if b > 0x7f then Inl (Err ''expected tiny-int!'') else Inr (uint b))"

definition ParseTinyString :: "slice \<Rightarrow> fault + (string \<times> nat)" where
  "ParseTinyString buf =
     (if len buf = 0 \<or> drop_bit 4 (vis buf ! 0) \<noteq> 0x8 then Inl (Err ''expected tiny-string!'')
      else if unat (vis buf ! 0 AND 0xf) = 0 then Inr ('''', 1)
      else
        (case reslice buf 1 (unat (vis buf ! 0 AND 0xf) + 1) of
           None \<Rightarrow> Inl slice_bounds_out_of_range
         | Some s \<Rightarrow> Inr (gostring (vis s), unat (vis buf ! 0 AND 0xf) + 1)))"

text \<open>\<open>binary.BigEndian.Uint64(b)\<close>, with its bounds check \<open>_ = b[7]\<close>.\<close>

definition Uint64 :: "slice \<Rightarrow> fault + 64 word" where
  "Uint64 b =
     (if len b < 8 then Inl index_out_of_range
      else Inr (ucast (vis b ! 7) OR push_bit 8 (ucast (vis b ! 6))
                OR push_bit 16 (ucast (vis b ! 5)) OR push_bit 24 (ucast (vis b ! 4))
                OR push_bit 32 (ucast (vis b ! 3)) OR push_bit 40 (ucast (vis b ! 2))
                OR push_bit 48 (ucast (vis b ! 1)) OR push_bit 56 (ucast (vis b ! 0))))"

text \<open>
  \<open>ParseString\<close>: \<open>readAhead\<close> is \<open>1 << (buf[0] & 0xf)\<close>, and \<open>pos\<close> is 1 when
  \<open>sizeBytes\<close> is cut and \<open>1 + readAhead\<close> afterwards. \<open>sizeBytes\<close> is put behind eight
  zero bytes and the last eight bytes of the whole are the size, an unsigned 64-bit number
  converted to \<open>int\<close>: \<open>sint\<close>. The last re-slice \<open>buf[pos : pos+size]\<close> panics on a negative
  size and on an end beyond the capacity, also where \<open>pos + size\<close> overflows.
\<close>

definition ParseString :: "slice \<Rightarrow> fault + (string \<times> nat)" where
  "ParseString buf =
     (if len buf < 1 \<or> drop_bit 4 (vis buf ! 0) \<noteq> 0xd then Inl (Err ''expected string!'')
      else
        (case reslice buf 1 (1 + 2 ^ unat (vis buf ! 0 AND 0xf)) of
           None \<Rightarrow> Inl slice_bounds_out_of_range
         | Some sizeBytes \<Rightarrow>
            (case Uint64 \<lparr>vis = drop (len sizeBytes) (replicate 8 0 @ vis sizeBytes), spare = []\<rparr> of
               Inl f \<Rightarrow> Inl f
             | Inr w \<Rightarrow>
                if sint w < 0 \<or> int (1 + 2 ^ unat (vis buf ! 0 AND 0xf)) + sint w > int (cap buf)
                then Inl slice_bounds_out_of_range
                else
                  (case reslice buf (1 + 2 ^ unat (vis buf ! 0 AND 0xf))
                          (1 + 2 ^ unat (vis buf ! 0 AND 0xf) + nat (sint w)) of
                     None \<Rightarrow> Inl slice_bounds_out_of_range
                   | Some s \<Rightarrow>
                      Inr (gostring (vis s), 1 + 2 ^ unat (vis buf ! 0 AND 0xf) + nat (sint w))))))"

text \<open>The loop of \<open>ParseTinyArray\<close>, with its variables \<open>pos\<close>, \<open>i\<close> and \<open>array\<close>.\<close>

function tiny_array_members ::
    "slice \<Rightarrow> nat \<Rightarrow> nat \<Rightarrow> nat \<Rightarrow> pval option list \<Rightarrow> fault + (pval option list \<times> nat)" where
  "tiny_array_members buf pos i siz array =
     (if i < siz then
        (case index buf pos of
           None \<Rightarrow> Inl index_out_of_range
         | Some memberType \<Rightarrow>
            if drop_bit 4 memberType \<le> 0x7 then
              (case ParseTinyInt memberType of
                 Inl f \<Rightarrow> Inl f
               | Inr val \<Rightarrow>
                  tiny_array_members buf (pos + 1) (i + 1) siz (array[i := Some (PInt val)]))
            else if drop_bit 4 memberType = 0x8 then
              (case slice_from buf pos of
                 None \<Rightarrow> Inl slice_bounds_out_of_range
               | Some s \<Rightarrow>
                  (case ParseTinyString s of
                     Inl f \<Rightarrow> Inl f
                   | Inr (val, n) \<Rightarrow>
                      tiny_array_members buf (pos + n) (i + 1) siz (array[i := Some (PStr val)])))
            else if drop_bit 4 memberType = 0xd then
              (case slice_from buf pos of
                 None \<Rightarrow> Inl slice_bounds_out_of_range
               | Some s \<Rightarrow>
                  (case ParseString s of
                     Inl f \<Rightarrow> Inl f
                   | Inr (val, n) \<Rightarrow>
                      tiny_array_members buf (pos + n) (i + 1) siz (array[i := Some (PStr val)])))
            else Inl (Err ''found unsupported encoding type''))
      else Inr (array, pos))"
  by pat_completeness auto
termination
  by (relation "measure (\<lambda>(buf, pos, i, siz, array). siz - i)") auto

declare tiny_array_members.simps [simp del]

definition ParseTinyArray :: "slice \<Rightarrow> fault + (pval option list \<times> nat)" where
  "ParseTinyArray buf =
     (case index buf 0 of
        None \<Rightarrow> Inl index_out_of_range
      | Some b0 \<Rightarrow>
         if drop_bit 4 b0 \<noteq> 0x9 then Inl (Err ''expected tiny-array'')
         else tiny_array_members buf 1 0 (unat (b0 AND 0xf)) (replicate (unat (b0 AND 0xf)) None))"

text \<open>
  \<open>ParseTinyMap\<close> and its loop over the members. Every caller here hands it a re-slice,
  which is never nil, so the panic on a nil argument has no branch. The switch on the
  value's tag is the inner \<open>case\<close>: it gives the value and the bytes it took, and the
  loop stores the value and moves on. \<open>buf[pos:]\<close> cannot fail where \<open>buf[pos]\<close> has been
  read; it is taken once for the four cases that parse from it. An error a member parser
  returns is a \<open>panic(err)\<close>; the unsupported tag alone is returned as an error.
\<close>

function ParseTinyMap :: "slice \<Rightarrow> fault + ((string \<times> pval) list \<times> nat)"
  and tiny_map_members :: "slice \<Rightarrow> nat \<Rightarrow> nat \<Rightarrow> nat \<Rightarrow> (string \<times> pval) list
        \<Rightarrow> fault + ((string \<times> pval) list \<times> nat)" where
  "ParseTinyMap buf =
     (if len buf < 1 then Inl (Err ''bytes empty, cannot parse struct'')
      else if drop_bit 4 (vis buf ! 0) \<noteq> 0xa then Inl (Panic ''XXX: buf[pos]'')
      else tiny_map_members buf 1 0 (unat (vis buf ! 0 AND 0xf)) [])"
| "tiny_map_members buf pos i numMembers result =
     (if i < numMembers then
        (case slice_from buf pos of
           None \<Rightarrow> Inl slice_bounds_out_of_range
         | Some key \<Rightarrow>
            (case ParseTinyString key of
               Inl f \<Rightarrow> Inl (as_panic f)
             | Inr (name, n) \<Rightarrow>
                (case index buf (pos + n) of
                   None \<Rightarrow> Inl index_out_of_range
                 | Some b \<Rightarrow>
                    (case
                       (if drop_bit 4 b \<le> 0x7 then
                          (case ParseTinyInt b of
                             Inl f \<Rightarrow> Inl (as_panic f)
                           | Inr val \<Rightarrow> Inr (PInt val, 1))
                        else
                          (case slice_from buf (pos + n) of
                             None \<Rightarrow> Inl slice_bounds_out_of_range
                           | Some rest \<Rightarrow>
                              if drop_bit 4 b = 0x8 then
                                (case ParseTinyString rest of
                                   Inl f \<Rightarrow> Inl (as_panic f)
                                 | Inr (val, k) \<Rightarrow> Inr (PStr val, k))
                              else if drop_bit 4 b = 0x9 then
                                (case ParseTinyArray rest of
                                   Inl f \<Rightarrow> Inl (as_panic f)
                                 | Inr (val, k) \<Rightarrow> Inr (PArr val, k))
                              else if drop_bit 4 b = 0xd then
                                (case ParseString rest of
                                   Inl f \<Rightarrow> Inl (as_panic f)
                                 | Inr (val, k) \<Rightarrow> Inr (PStr val, k))
                              else if drop_bit 4 b = 0xa then
                                (case ParseTinyMap rest of
                                   Inl f \<Rightarrow> Inl (as_panic f)
                                 | Inr (val, k) \<Rightarrow> Inr (PMap val, k))
                              else Inl (Err ''found unsupported encoding type'')))
                     of
                       Inl f \<Rightarrow> Inl f
                     | Inr (v, k) \<Rightarrow>
                        tiny_map_members buf (pos + n + k) (i + 1) numMembers
                          (AList.update name v result)))))
      else Inr (result, pos))"
  by pat_completeness auto
termination
proof (relation "measures
         [\<lambda>x. case x of Inl buf \<Rightarrow> len buf | Inr (buf, pos, i, numMembers, result) \<Rightarrow> len buf,
          \<lambda>x. case x of Inl buf \<Rightarrow> 1 | Inr (buf, pos, i, numMembers, result) \<Rightarrow> 0,
          \<lambda>x. case x of Inl buf \<Rightarrow> 0 | Inr (buf, pos, i, numMembers, result) \<Rightarrow> numMembers - i]",
       goal_cases)
  case 1
  show ?case by simp
next
  case 2
  show ?case by simp
next
  case 3
  then show ?case
    by (auto simp: index_def slice_from_def reslice_def len_def ParseTinyString_def
             split: if_splits option.splits)
next
  case 4
  then show ?case by simp
qed

declare ParseTinyMap.simps [simp del] tiny_map_members.simps [simp del]


section \<open>Package backend: the routing table and its monitor\<close>

text \<open>
  What the cluster answers. A \<open>neo4j.Record\<close> is the list of its fields, \<open>Get\<close> looks
  a field up; a field holds a string, a 64-bit integer or a value of another type. A
  transaction \<open>tx\<close> answers the routing query for the names it is given, and a driver
  answers the query for the database names and opens such transactions. An answer is the
  rows \<open>Collect\<close> gives, or the error of \<open>Run\<close> or \<open>Collect\<close>.
\<close>

datatype dbval = DString string | DInt64 "64 word" | DOther

type_synonym row = "(string \<times> dbval) list"

definition Get :: "row \<Rightarrow> string \<Rightarrow> dbval option" where
  "Get r key = map_of r key"

type_synonym tx = "string list \<Rightarrow> fault + row list"

record driver =
  show_databases :: "fault + row list"
  routing_query :: tx

record table =
  tbl_db :: string
  tbl_ttl :: "64 word"
  tbl_readers :: "string list"
  tbl_writers :: "string list"

text \<open>
  The fields of \<open>RoutingTable\<close>, as \<open>getNewRoutingTable\<close> fills them. \<open>Ttl\<close> is a
  \<open>time.Duration\<close>, a signed 64-bit count of nanoseconds; \<open>CreatedAt\<close> is an instant.
\<close>

record RoutingTable =
  DefaultDb :: string
  readers :: "string \<rightharpoonup> string list"
  writers :: "string \<rightharpoonup> string list"
  Hosts :: "string \<rightharpoonup> bool"
  Ttl :: "64 word"
  CreatedAt :: int

text \<open>The loop of \<open>queryDbNames\<close> over the rows.\<close>

fun collect_names :: "row list \<Rightarrow> fault + string list" where
  "collect_names [] = Inr []"
| "collect_names (r # rows) =
     (case Get r ''name'' of
        None \<Rightarrow> Inl (Err ''couldn't find name field in result'')
      | Some (DString name) \<Rightarrow>
         (case collect_names rows of Inl f \<Rightarrow> Inl f | Inr names \<Rightarrow> Inr (name # names))
      | Some _ \<Rightarrow> Inl (Panic ''name isn't a string''))"

definition queryDbNames :: "driver \<Rightarrow> fault + string list" where
  "queryDbNames d = (case show_databases d of Inl f \<Rightarrow> Inl f | Inr rows \<Rightarrow> collect_names rows)"

text \<open>
  The loop of \<open>routingTableTx\<close> over the rows, with its variable \<open>tableMap\<close>. A
  \<open>ROUTE\<close> row goes to the next row before \<open>tableMap[name] = t\<close>.
\<close>

fun routing_rows :: "row list \<Rightarrow> (string \<rightharpoonup> table) \<Rightarrow> fault + (string \<rightharpoonup> table)" where
  "routing_rows [] tableMap = Inr tableMap"
| "routing_rows (r # rows) tableMap =
     (case Get r ''address'' of
        None \<Rightarrow> Inl (Err ''missing address field in result'')
      | Some (DString addr) \<Rightarrow>
         (case Get r ''ttl'' of
            None \<Rightarrow> Inl (Err ''missing ttl field in result'')
          | Some (DInt64 ttl) \<Rightarrow>
             (case Get r ''name'' of
                None \<Rightarrow> Inl (Err ''missing name field in result'')
              | Some (DString name) \<Rightarrow>
                 (case Get r ''role'' of
                    None \<Rightarrow> Inl (Err ''missing role field in result'')
                  | Some (DString role) \<Rightarrow>
                     (let t = (case tableMap name of
                                 Some t \<Rightarrow> t
                               | None \<Rightarrow> \<lparr>tbl_db = name, tbl_ttl = ttl * 1000000000,
                                           tbl_readers = [], tbl_writers = []\<rparr>)
                      in if role = ''READ'' then
                           routing_rows rows (tableMap(name \<mapsto> t\<lparr>tbl_readers := tbl_readers t @ [addr]\<rparr>))
                         else if role = ''WRITE'' then
                           routing_rows rows (tableMap(name \<mapsto> t\<lparr>tbl_writers := tbl_writers t @ [addr]\<rparr>))
                         else if role = ''ROUTE'' then routing_rows rows tableMap
                         else Inl (Err ''invalid role''))
                  | Some _ \<Rightarrow> Inl (Panic ''role isn't a string''))
              | Some _ \<Rightarrow> Inl (Panic ''name isn't a string!''))
          | Some _ \<Rightarrow> Inl (Panic ''ttl isn't an integer!''))
      | Some _ \<Rightarrow> Inl (Panic ''addr isn't a string!''))"

definition routingTableTx :: "tx \<Rightarrow> string list \<Rightarrow> fault + (string \<rightharpoonup> table)" where
  "routingTableTx t names =
     (case t names of Inl f \<Rightarrow> Inl f | Inr rows \<Rightarrow> routing_rows rows Map.empty)"

text \<open>
  \<open>queryRoutingTable\<close> runs \<open>routingTableTx\<close> in a read transaction; the type assertion
  on its result holds whenever it returned a map.
\<close>

definition queryRoutingTable :: "driver \<Rightarrow> string list \<Rightarrow> fault + (string \<rightharpoonup> table)" where
  "queryRoutingTable d names = routingTableTx (routing_query d) names"

text \<open>
  The loop of \<open>getNewRoutingTable\<close> over \<open>tableMap\<close>. Go leaves the order of a \<open>range\<close>
  over a map open: the databases come in the order the first argument lists them, which
  stands for the order the runtime picks and lists every key of \<open>tableMap\<close> once.
\<close>

definition add_hosts :: "string list \<Rightarrow> (string \<rightharpoonup> bool) \<Rightarrow> (string \<rightharpoonup> bool)" where
  "add_hosts hosts m = fold (\<lambda>host m. m(host \<mapsto> True)) hosts m"

fun build_tables :: "string list \<Rightarrow> (string \<rightharpoonup> table) \<Rightarrow> RoutingTable \<Rightarrow> RoutingTable" where
  "build_tables [] tableMap rt = rt"
| "build_tables (db # dbs) tableMap rt =
     (case tableMap db of
        None \<Rightarrow> build_tables dbs tableMap rt
      | Some t \<Rightarrow>
         build_tables dbs tableMap
           (rt\<lparr>readers := (readers rt)(db \<mapsto> tbl_readers t),
               writers := (writers rt)(db \<mapsto> tbl_writers t),
               Ttl := tbl_ttl t,
               Hosts := add_hosts (tbl_writers t) (add_hosts (tbl_readers t) (Hosts rt))\<rparr>))"

text \<open>
  \<open>getNewRoutingTable\<close>, given the driver, the order of the \<open>range\<close> and the clock.
  \<open>names[0]\<close> is read after both queries and panics when there is no name.
\<close>

definition getNewRoutingTable :: "driver \<Rightarrow> string list \<Rightarrow> int \<Rightarrow> fault + RoutingTable" where
  "getNewRoutingTable d order now =
     (case queryDbNames d of
        Inl f \<Rightarrow> Inl f
      | Inr names \<Rightarrow>
         (case queryRoutingTable d names of
            Inl f \<Rightarrow> Inl f
          | Inr tableMap \<Rightarrow>
             (case names of
                [] \<Rightarrow> Inl index_out_of_range
              | name0 # _ \<Rightarrow>
                 Inr (build_tables order tableMap
                        \<lparr>DefaultDb = name0, readers = Map.empty, writers = Map.empty,
                         Hosts = Map.empty, Ttl = 0, CreatedAt = now\<rparr>))))"

text \<open>
  The goroutine of \<open>NewMonitor\<close>. Its state: whether the ticker runs and at which
  period, and the one-slot channel \<open>c\<close>. What its \<open>select\<close> receives, in turn, is a list
  of events: the ticker fired (with the driver's answers at that time, the order of the
  \<open>range\<close> and the clock), a value came from the halt channel, or \<open>time.After\<close> fired.
  The goroutine is in its \<open>select\<close>, has returned, or has ended the process.
\<close>

record monitor_state =
  ticker_running :: bool
  ticker_period :: "64 word"
  chan_c :: "RoutingTable option"

datatype event = TickerFired driver "string list" int | HaltReceived | WatchdogFired

datatype goroutine = Selecting monitor_state | Returned | Died fault

text \<open>\<open>log.Fatal(err)\<close> on an error a callee returned.\<close>

definition log_Fatal :: "fault \<Rightarrow> fault" where
  "log_Fatal f = (case f of Err m \<Rightarrow> Fatal m | _ \<Rightarrow> f)"

text \<open>
  The loop \<open>for { select { ... } }\<close>. On a tick: refresh, \<open>ticker.Reset\<close> (which panics on
  a period that is not positive, and starts a stopped ticker), empty the channel, send.
  On halt: \<open>ticker.Stop()\<close> and the log line; the case has no \<open>return\<close>, the loop goes on.
\<close>

fun monitor_loop :: "monitor_state \<Rightarrow> event list \<Rightarrow> goroutine" where
  "monitor_loop m [] = Selecting m"
| "monitor_loop m (TickerFired d order now # evs) =
     (case getNewRoutingTable d order now of
        Inl f \<Rightarrow> Died (log_Fatal f)
      | Inr rt \<Rightarrow>
         if sint (Ttl rt) \<le> 0 then Died (Panic ''non-positive interval for Ticker.Reset'')
         else
           (case chan_c (m\<lparr>chan_c := None\<rparr>) of
              None \<Rightarrow>
                monitor_loop (m\<lparr>ticker_running := True, ticker_period := Ttl rt, chan_c := Some rt\<rparr>) evs
            | Some _ \<Rightarrow> Died (Panic ''monitor channel full'')))"
| "monitor_loop m (HaltReceived # evs) = monitor_loop (m\<lparr>ticker_running := False\<rparr>) evs"
| "monitor_loop m (WatchdogFired # evs) = Died (Fatal ''monitor timeout reached'')"

text \<open>
  \<open>NewMonitor\<close>, from the first routing table on: a failed first refresh is fatal, the
  table goes into the channel, and the goroutine starts its ticker (\<open>time.NewTicker\<close>
  panics on a period that is not positive) and enters the loop.
\<close>

definition NewMonitor :: "driver \<Rightarrow> string list \<Rightarrow> int \<Rightarrow> event list \<Rightarrow> goroutine" where
  "NewMonitor d order now evs =
     (case getNewRoutingTable d order now of
        Inl f \<Rightarrow> Died (log_Fatal f)
      | Inr rt \<Rightarrow>
         if sint (Ttl rt) \<le> 0 then Died (Panic ''non-positive interval for NewTicker'')
         else monitor_loop \<lparr>ticker_running = True, ticker_period = Ttl rt, chan_c = Some rt\<rparr> evs)"


section \<open>Package backend: Authenticate\<close>

text \<open>
  Modelled from the spec: the method \<open>Expired\<close> of \<open>RoutingTable\<close> is not in the
  sources at hand. The specification: "Expired is true when now - CreatedAt > TTL".
\<close>

definition Expired :: "RoutingTable \<Rightarrow> int \<Rightarrow> bool" where
  "Expired rt now = (now - CreatedAt rt > sint (Ttl rt))"

text \<open>
  Modelled from the spec: the method \<open>WritersFor\<close> of \<open>RoutingTable\<close> is not in the
  sources at hand. The specification has the routing table hold "a mapping from database
  name to ordered list of writer host strings": \<open>WritersFor\<close> gives the list of the
  database, and no list and an error for a database the mapping does not have.
\<close>

definition WritersFor :: "RoutingTable \<Rightarrow> string \<Rightarrow> string list \<times> string option" where
  "WritersFor rt db =
     (case writers rt db of
        Some hosts \<Rightarrow> (hosts, None)
      | None \<Rightarrow> ([], Some ''no such database''))"

record Backend =
  routingTable :: "RoutingTable option"
  tls :: bool

type_synonym net_conn = nat

datatype BoltConn = NewDirectConn net_conn

text \<open>
  What the world does during one call of \<open>Authenticate\<close>: the clock when \<open>Expired\<close> is
  asked, what the monitor's channel yields within the sixty seconds (\<open>None\<close>: nothing),
  the function \<open>authClient\<close>, which is not in the sources at hand and gives a connection
  or an error for the HELLO bytes, the network, the host and the TLS flag, and the order
  in which \<open>range rt.Hosts\<close> lists the hosts.
\<close>

record auth_env =
  clock :: int
  monitor_C :: "RoutingTable option"
  authClient :: "slice \<Rightarrow> string \<Rightarrow> string \<Rightarrow> bool \<Rightarrow> fault + net_conn"
  hosts_order :: "string list"

text \<open>The method \<open>RoutingTable\<close> of \<open>Backend\<close>; it may replace the backend's table.\<close>

definition Backend_RoutingTable :: "Backend \<Rightarrow> auth_env \<Rightarrow> fault + (RoutingTable \<times> Backend)" where
  "Backend_RoutingTable b env =
     (case routingTable b of
        None \<Rightarrow> Inl (Panic ''attempting to use uninitialized BackendClient'')
      | Some rt \<Rightarrow>
         if Expired rt (clock env) then
           (case monitor_C env of
              Some rt' \<Rightarrow> Inr (rt', b\<lparr>routingTable := Some rt'\<rparr>)
            | None \<Rightarrow> Inl (Fatal ''timeout waiting for new routing table!''))
         else Inr (rt, b))"

text \<open>
  The loop that starts one goroutine for each host other than \<open>defaultWriter\<close>, and what
  the goroutines send to the channel. A goroutine whose \<open>authClient\<close> returns an error
  logs it and sends nothing; one that panics ends the process. Each goroutine is taken
  to read the \<open>host\<close> of its own iteration.
\<close>

fun fan_out :: "(string \<Rightarrow> fault + net_conn) \<Rightarrow> string \<Rightarrow> string list
                  \<Rightarrow> fault + (string \<times> BoltConn) list" where
  "fan_out auth defaultWriter [] = Inr []"
| "fan_out auth defaultWriter (host # hosts) =
     (if host \<noteq> defaultWriter then
        (case auth host of
           Inl (Err e) \<Rightarrow> fan_out auth defaultWriter hosts
         | Inl f \<Rightarrow> Inl f
         | Inr conn \<Rightarrow>
            (case fan_out auth defaultWriter hosts of
               Inl f \<Rightarrow> Inl f
             | Inr pairs \<Rightarrow> Inr ((host, NewDirectConn conn) # pairs)))
      else fan_out auth defaultWriter hosts)"

text \<open>
  A call of \<open>Authenticate\<close>: how it ends (the map of connections, the error being nil,
  or the error or panic), the hosts \<open>authClient\<close> was called for, in order, and the
  backend afterwards.
\<close>

record auth_run =
  outcome :: "fault + (string \<rightharpoonup> BoltConn)"
  attempts :: "string list"
  backend :: Backend

definition Authenticate :: "Backend \<Rightarrow> Message \<Rightarrow> auth_env \<Rightarrow> auth_run" where
  "Authenticate b hello env =
     (if T hello \<noteq> HelloMsg then
        \<lparr>outcome = Inl (Panic ''authenticate requires a Hello message''), attempts = [], backend = b\<rparr>
      else
        (case slice_from (Data hello) 4 of
           None \<Rightarrow> \<lparr>outcome = Inl slice_bounds_out_of_range, attempts = [], backend = b\<rparr>
         | Some payload \<Rightarrow>
            (case ParseTinyMap payload of
               Inl f \<Rightarrow> \<lparr>outcome = Inl (as_panic f), attempts = [], backend = b\<rparr>
             | Inr (msg, pos) \<Rightarrow>
                (case map_of msg ''principal'' of
                   Some (PStr principal_name) \<Rightarrow>
                     (case Backend_RoutingTable b env of
                        Inl f \<Rightarrow> \<lparr>outcome = Inl f, attempts = [], backend = b\<rparr>
                      | Inr (rt, b') \<Rightarrow>
                         (case fst (WritersFor rt (DefaultDb rt)) of
                            [] \<Rightarrow> \<lparr>outcome = Inl index_out_of_range, attempts = [], backend = b'\<rparr>
                          | defaultWriter # _ \<Rightarrow>
                             (case authClient env (Data hello) ''tcp'' defaultWriter (tls b') of
                                Inl f \<Rightarrow> \<lparr>outcome = Inl f, attempts = [defaultWriter], backend = b'\<rparr>
                              | Inr conn \<Rightarrow>
                                 \<lparr>outcome =
                                    (case fan_out (\<lambda>host. authClient env (Data hello) ''tcp'' host (tls b'))
                                            defaultWriter (hosts_order env) of
                                       Inl f \<Rightarrow> Inl f
                                     | Inr pairs \<Rightarrow>
                                        Inr (fold (\<lambda>(host, c) conns. conns(host \<mapsto> c)) pairs
                                               [defaultWriter \<mapsto> NewDirectConn conn])),
                                  attempts = defaultWriter
                                               # filter (\<lambda>host. host \<noteq> defaultWriter) (hosts_order env),
                                  backend = b'\<rparr>)))
                 | _ \<Rightarrow>
                     \<lparr>outcome = Inl (Panic ''principal in Hello message was not a string''),
                      attempts = [], backend = b\<rparr>))))"


section \<open>Notions of the specification and of the proofs\<close>

text \<open>
  The wire format of the specification: the length prefix is a 16-bit big-endian number,
  and an unchunked message is \<open>LL LL <payload> 00 00\<close>, its prefix counting the payload.
\<close>

definition declared_length :: "byte list \<Rightarrow> nat" where
  "declared_length bs = 256 * unat (bs ! 0) + unat (bs ! 1)"

definition is_frame :: "byte list \<Rightarrow> bool" where
  "is_frame f =
     (4 \<le> length f \<and> declared_length f + 4 = length f \<and> drop (length f - 2) f = [0x00, 0x00])"

text \<open>
  A truncated frame at the end of a buffer, of which the length prefix can be read: some
  of its bytes are there, fewer than its declared length plus 4. \<open>Parse\<close> reads the
  prefix with \<open>buf[i : i+2]\<close>, which is checked against the capacity: of a frame of
  which a single byte arrived, the second byte of the prefix is the first byte of the
  backing array behind the slice, \<open>sp\<close>, where there is one.
\<close>

definition truncated_frame :: "byte list \<Rightarrow> byte list \<Rightarrow> bool" where
  "truncated_frame rest sp =
     (rest \<noteq> [] \<and> 2 \<le> length (rest @ sp) \<and> length rest < declared_length (rest @ sp) + 4)"

text \<open>
  The messages of a run of frames: each message's \<open>Data\<close> is a re-slice of the buffer,
  so behind its bytes it keeps the rest of the backing array as spare capacity.
\<close>

fun frame_msgs :: "byte list list \<Rightarrow> byte list \<Rightarrow> Message list" where
  "frame_msgs [] behind = []"
| "frame_msgs (f # fs) behind =
     \<lparr>T = IdentifyType \<lparr>vis = f, spare = concat fs @ behind\<rparr>,
      Data = \<lparr>vis = f, spare = concat fs @ behind\<rparr>\<rparr> # frame_msgs fs behind"

definition tail_of :: "byte list \<Rightarrow> byte list \<Rightarrow> slice option" where
  "tail_of rest sp = (if rest = [] then None else Some \<lparr>vis = rest, spare = sp\<rparr>)"

text \<open>The bytes of the returned tail; the nil slice has none.\<close>

definition bytes_of :: "slice option \<Rightarrow> byte list" where
  "bytes_of chunk = (case chunk of None \<Rightarrow> [] | Some s \<Rightarrow> vis s)"

text \<open>The dispatch table of the specification, in its order.\<close>

definition dispatch_table :: "(byte \<times> Type) list" where
  "dispatch_table =
     [(0x01, HelloMsg), (0x02, GoodbyeMsg), (0x0F, ResetMsg), (0x10, RunMsg), (0x11, BeginMsg),
      (0x12, CommitMsg), (0x13, RollbackMsg), (0x2F, DiscardMsg), (0x3F, PullMsg),
      (0x70, SuccessMsg), (0x71, RecordMsg), (0x7E, IgnoreMsg), (0x7F, FailureMsg)]"

definition dispatch :: "byte \<Rightarrow> Type" where
  "dispatch b = (case map_of dispatch_table b of Some t \<Rightarrow> t | None \<Rightarrow> UnknownMsg)"

text \<open>The hosts of a role mapping: the union of its value lists.\<close>

definition listed_hosts :: "(string \<rightharpoonup> string list) \<Rightarrow> string set" where
  "listed_hosts m = \<Union> (set ` ran m)"



section \<open>Example inputs\<close>

text \<open>
  A cluster of three hosts. The default database \<open>neo4j\<close> has the writer \<open>h1\<close> and the
  readers \<open>h2\<close> and \<open>h3\<close>; one more address has the role ROUTE.
\<close>

definition example_rows :: "row list" where
  "example_rows =
     [[(''name'', DString ''neo4j''), (''ttl'', DInt64 300), (''role'', DString ''WRITE''),
       (''address'', DString ''h1:7687'')],
      [(''name'', DString ''neo4j''), (''ttl'', DInt64 300), (''role'', DString ''READ''),
       (''address'', DString ''h2:7687'')],
      [(''name'', DString ''neo4j''), (''ttl'', DInt64 300), (''role'', DString ''READ''),
       (''address'', DString ''h3:7687'')],
      [(''name'', DString ''neo4j''), (''ttl'', DInt64 300), (''role'', DString ''ROUTE''),
       (''address'', DString ''h4:7687'')]]"

definition example_driver :: driver where
  "example_driver =
     \<lparr>show_databases = Inr [[(''name'', DString ''neo4j'')], [(''name'', DString ''system'')]],
      routing_query = (\<lambda>names. Inr example_rows)\<rparr>"


definition example_rt :: RoutingTable where
  "example_rt =
     \<lparr>DefaultDb = ''neo4j'',
      readers = [''neo4j'' \<mapsto> [''h2:7687'', ''h3:7687'']],
      writers = [''neo4j'' \<mapsto> [''h1:7687'']],
      Hosts = [''h1:7687'' \<mapsto> True, ''h2:7687'' \<mapsto> True, ''h3:7687'' \<mapsto> True],
      Ttl = 300000000000, CreatedAt = 0\<rparr>"

definition example_backend :: Backend where
  "example_backend = \<lparr>routingTable = Some example_rt, tls = False\<rparr>"

text \<open>The HELLO frames \<open>{principal: "neo4j"}\<close>, \<open>{scheme: "basic"}\<close> and \<open>{principal: 7}\<close>.\<close>

definition hello_neo4j :: Message where
  "hello_neo4j =
     \<lparr>T = HelloMsg,
      Data = \<lparr>vis = [0x00, 0x13, 0xb1, 0x01, 0xa1, 0x89, 0x70, 0x72, 0x69, 0x6e, 0x63, 0x69,
                    0x70, 0x61, 0x6c, 0x85, 0x6e, 0x65, 0x6f, 0x34, 0x6a, 0x00, 0x00],
              spare = []\<rparr>\<rparr>"



text \<open>Two worlds: in one \<open>h1\<close> rejects the HELLO, in the other \<open>h3\<close> does.\<close>

definition env_h1_rejects :: auth_env where
  "env_h1_rejects =
     \<lparr>clock = 1, monitor_C = None,
      authClient = (\<lambda>hello network host tls.
         if host = ''h1:7687'' then Inl (Err ''unauthorized'') else Inr 7),
      hosts_order = [''h3:7687'', ''h1:7687'', ''h2:7687'']\<rparr>"

definition env_h3_rejects :: auth_env where
  "env_h3_rejects =
     \<lparr>clock = 1, monitor_C = None,
      authClient = (\<lambda>hello network host tls.
         if host = ''h3:7687'' then Inl (Err ''unauthorized'')
         else if host = ''h1:7687'' then Inr 1 else Inr 2),
      hosts_order = [''h3:7687'', ''h1:7687'', ''h2:7687'']\<rparr>"


section \<open>Framing: the properties of Parse and IdentifyType\<close>

subsection \<open>Reading the length prefix\<close>

lemma ucast_AND_push_bit_8: "(ucast (b1::byte) :: 16 word) AND push_bit 8 (ucast (b0 :: byte)) = 0"
  by (rule bit_word_eqI) (auto simp: bit_simps dest: bit_imp_le_length)

lemma unat_ucast_byte: "unat (ucast (b1::byte) :: 16 word) = unat b1"
  by (simp add: unsigned_ucast_eq take_bit_nat_eq_self
        order_less_trans[OF unsigned_less[where 'a=nat and w=b1, simplified]])

lemma unat_push_bit_byte: "unat (push_bit 8 (ucast (b0::byte)) :: 16 word) = 256 * unat b0"
proof -
  have "unat b0 < 256" using unsigned_less[of b0, where 'a=nat] by simp
  then have "256 * unat b0 < 2 ^ 16" by simp
  then show ?thesis
    by (simp add: push_bit_eq_mult unat_word_ariths unat_ucast_byte)
qed

lemma Uint16_value:
  "unat (ucast (b1 :: byte) OR push_bit 8 (ucast (b0 :: byte)) :: 16 word) = 256 * unat b0 + unat b1"
proof -
  have lt: "unat b0 < 256" "unat b1 < 256"
    using unsigned_less[of b0, where 'a=nat] unsigned_less[of b1, where 'a=nat] by simp_all
  have "(ucast b1 OR push_bit 8 (ucast b0) :: 16 word) = ucast b1 + push_bit 8 (ucast b0)"
    by (rule disjunctive_add_eq_or[symmetric]) (rule ucast_AND_push_bit_8)
  moreover have "unat (ucast b1 + push_bit 8 (ucast b0) :: 16 word)
      = unat (ucast b1 :: 16 word) + unat (push_bit 8 (ucast b0) :: 16 word)"
    using lt by (subst unat_add_lem[THEN iffD1]) (simp_all add: unat_ucast_byte unat_push_bit_byte)
  ultimately show ?thesis by (simp add: unat_ucast_byte unat_push_bit_byte)
qed

lemma reslice_window:
  assumes "vis buf @ spare buf = pre @ mid @ post"
  shows "reslice buf (length pre) (length pre + length mid) = Some \<lparr>vis = mid, spare = post\<rparr>"
proof -
  have "cap buf = length pre + length mid + length post"
    using arg_cong[OF assms, of length] by (simp add: cap_def)
  then show ?thesis using assms by (simp add: reslice_def)
qed

lemma Uint16_header:
  assumes "2 \<le> length bs"
  shows "\<exists>w. Uint16 \<lparr>vis = take 2 bs, spare = sp\<rparr> = Inr w \<and> unat w = declared_length bs"
  using assms by (simp add: Uint16_def len_def declared_length_def Uint16_value)

lemma header_read:
  assumes "vis buf @ spare buf = pre @ bs" and "2 \<le> length bs"
  shows "\<exists>hdr w. reslice buf (length pre) (length pre + 2) = Some hdr \<and> Uint16 hdr = Inr w
            \<and> unat w = declared_length bs"
proof -
  have "vis buf @ spare buf = pre @ take 2 bs @ drop 2 bs" using assms by simp
  from reslice_window[OF this] assms(2)
  have "reslice buf (length pre) (length pre + 2) = Some \<lparr>vis = take 2 bs, spare = drop 2 bs\<rparr>"
    by simp
  with Uint16_header[OF assms(2)] show ?thesis by auto
qed

lemma Parse_loop_tail:
  assumes v: "vis buf = pre @ rest" and t: "rest = [] \<or> truncated_frame rest (spare buf)"
  shows "Parse_loop buf (length pre) msgs = Inr (msgs, tail_of rest (spare buf))"
proof (cases "rest = []")
  case True
  with v show ?thesis by (subst Parse_loop.simps) (simp add: len_def tail_of_def)
next
  case False
  with t have tr: "truncated_frame rest (spare buf)" by simp
  have lt: "length pre < len buf" using v False by (simp add: len_def)
  have all: "vis buf @ spare buf = pre @ (rest @ spare buf)" using v by simp
  from tr have two: "2 \<le> length (rest @ spare buf)" by (simp add: truncated_frame_def)
  from header_read[OF all two] obtain hdr w where
    h: "reslice buf (length pre) (length pre + 2) = Some hdr" "Uint16 hdr = Inr w"
       "unat w = declared_length (rest @ spare buf)" by blast
  have big: "len buf < unat w + length pre + 4"
    using tr h(3) v by (simp add: truncated_frame_def len_def)
  have "vis buf @ spare buf = pre @ rest @ spare buf" using v by simp
  from reslice_window[OF this] v
  have sf: "slice_from buf (length pre) = Some \<lparr>vis = rest, spare = spare buf\<rparr>"
    by (simp add: slice_from_def len_def)
  show ?thesis
    using lt h(1,2) big sf False by (subst Parse_loop.simps) (simp add: tail_of_def)
qed


lemma Parse_loop_skip_frames:
  assumes "\<forall>f\<in>set frames. is_frame f"
      and "vis buf = pre @ concat frames @ rest"
  shows "Parse_loop buf (length pre) msgs
           = Parse_loop buf (length pre + length (concat frames))
               (msgs @ frame_msgs frames (rest @ spare buf))"
  using assms
proof (induction frames arbitrary: pre msgs)
  case Nil
  then show ?case by simp
next
  case (Cons f fs)
  let ?post = "concat fs @ rest @ spare buf"
  let ?msg = "\<lparr>vis = f, spare = ?post\<rparr>"
  from Cons.prems(1) have fr: "is_frame f" by simp
  then have f4: "4 \<le> length f" and dl: "declared_length f + 4 = length f"
    and sfx: "drop (length f - 2) f = [0x00, 0x00]" by (simp_all add: is_frame_def)
  have v: "vis buf = pre @ f @ concat fs @ rest" using Cons.prems(2) by simp
  have lt: "length pre < len buf" using f4 by (auto simp: len_def v)
  have all: "vis buf @ spare buf = pre @ (f @ ?post)" using v by simp
  have two: "2 \<le> length (f @ ?post)" using f4 by simp
  from header_read[OF all two] obtain hdr w where
    h: "reslice buf (length pre) (length pre + 2) = Some hdr" "Uint16 hdr = Inr w"
       "unat w = declared_length (f @ ?post)" by blast
  have "declared_length (f @ ?post) = declared_length f"
    using f4 by (auto simp: declared_length_def nth_append)
  with h(3) dl have w: "unat w + 4 = length f" by simp
  then have fits: "\<not> len buf < unat w + length pre + 4" using v by (simp add: len_def)
  have "vis buf @ spare buf = pre @ f @ ?post" using v by simp
  from reslice_window[OF this] w
  have m: "reslice buf (length pre) (length pre + unat w + 4) = Some ?msg"
    by (simp add: add.assoc)
  have suffix: "HasSuffix00 ?msg" using f4 sfx by (simp add: HasSuffix00_def len_def)
  have step: "Parse_loop buf (length pre) msgs
      = Parse_loop buf (length (pre @ f)) (msgs @ [\<lparr>T = IdentifyType ?msg, Data = ?msg\<rparr>])"
    using lt h(1,2) fits m suffix by (subst Parse_loop.simps) (simp add: len_def)
  have "Parse_loop buf (length (pre @ f)) (msgs @ [\<lparr>T = IdentifyType ?msg, Data = ?msg\<rparr>])
      = Parse_loop buf (length (pre @ f) + length (concat fs))
          ((msgs @ [\<lparr>T = IdentifyType ?msg, Data = ?msg\<rparr>]) @ frame_msgs fs (rest @ spare buf))"
    using Cons.prems by (intro Cons.IH) simp_all
  with step show ?case by (simp add: add.assoc)
qed

lemma Parse_loop_frames:
  assumes "\<forall>f\<in>set frames. is_frame f"
      and "vis buf = pre @ concat frames @ rest"
      and "rest = [] \<or> truncated_frame rest (spare buf)"
  shows "Parse_loop buf (length pre) msgs
           = Inr (msgs @ frame_msgs frames (rest @ spare buf), tail_of rest (spare buf))"
proof -
  have "vis buf = (pre @ concat frames) @ rest" using assms(2) by simp
  from Parse_loop_tail[OF this assms(3)] Parse_loop_skip_frames[OF assms(1,2)]
  show ?thesis by simp
qed

lemma Parse_loop_bad_frame:
  assumes v: "vis buf = pre @ g @ rest"
      and g2: "2 \<le> length g" and dl: "declared_length g + 4 = length g"
      and sfx: "drop (length g - 2) g \<noteq> [0x00, 0x00]"
  shows "Parse_loop buf (length pre) msgs = Inl (Panic ''DEBUG [bad message]'')"
proof -
  let ?post = "rest @ spare buf"
  let ?msg = "\<lparr>vis = g, spare = ?post\<rparr>"
  have lt: "length pre < len buf" using g2 by (auto simp: len_def v)
  have all: "vis buf @ spare buf = pre @ (g @ ?post)" using v by simp
  have two: "2 \<le> length (g @ ?post)" using g2 by simp
  from header_read[OF all two] obtain hdr w where
    h: "reslice buf (length pre) (length pre + 2) = Some hdr" "Uint16 hdr = Inr w"
       "unat w = declared_length (g @ ?post)" by blast
  have "declared_length (g @ ?post) = declared_length g"
    using g2 by (auto simp: declared_length_def nth_append)
  with h(3) dl have w: "unat w + 4 = length g" by simp
  then have fits: "\<not> len buf < unat w + length pre + 4" using v by (simp add: len_def)
  have "vis buf @ spare buf = pre @ g @ ?post" using v by simp
  from reslice_window[OF this] w
  have m: "reslice buf (length pre) (length pre + unat w + 4) = Some ?msg"
    by (simp add: add.assoc)
  have suffix: "\<not> HasSuffix00 ?msg" using sfx by (simp add: HasSuffix00_def len_def)
  show ?thesis
    using lt h(1,2) fits m suffix by (subst Parse_loop.simps) (simp add: len_def)
qed

lemma frame_msgs_Data: "map (\<lambda>m. vis (Data m)) (frame_msgs frames behind) = frames"
  by (induction frames) simp_all

lemma frame_msgs_T: "\<forall>m\<in>set (frame_msgs frames behind). T m = IdentifyType (Data m)"
  by (induction frames) simp_all

lemma Parse_loop_partition:
  "Parse_loop buf i msgs = Inr (ms, chunk) \<Longrightarrow> i \<le> len buf
     \<Longrightarrow> concat (map (\<lambda>m. vis (Data m)) msgs) = take i (vis buf)
     \<Longrightarrow> concat (map (\<lambda>m. vis (Data m)) ms) @ bytes_of chunk = vis buf"
proof (induction buf i msgs rule: Parse_loop.induct)
  case (1 buf i messages)
  show ?case
  proof (cases "i < len buf")
    case False
    with "1.prems" show ?thesis
      by (subst (asm) Parse_loop.simps) (simp add: bytes_of_def len_def)
  next
    case True
    from "1.prems"(1) True obtain hdr w where
      h: "reslice buf i (i + 2) = Some hdr" "Uint16 hdr = Inr w"
      by (subst (asm) Parse_loop.simps) (auto split: option.splits sum.splits)
    show ?thesis
    proof (cases "unat w + i + 4 > len buf")
      case big: True
      with "1.prems"(1) True h obtain c where c: "slice_from buf i = Some c" "ms = messages" "chunk = Some c"
        by (subst (asm) Parse_loop.simps) (auto split: option.splits)
      from c(1) True have "vis c = drop i (vis buf)"
        by (auto simp: slice_from_def reslice_def len_def split: if_splits)
      with c "1.prems"(3) show ?thesis by (simp add: bytes_of_def)
    next
      case fits: False
      with "1.prems"(1) True h obtain msg where
        m: "reslice buf i (i + unat w + 4) = Some msg" "HasSuffix00 msg"
           "Parse_loop buf (i + len msg) (messages @ [\<lparr>T = IdentifyType msg, Data = msg\<rparr>]) = Inr (ms, chunk)"
        by (subst (asm) Parse_loop.simps) (auto split: option.splits if_splits)
      from m(1) fits have vm: "vis msg = take (unat w + 4) (drop i (vis buf))" and lm: "len msg = unat w + 4"
        by (auto simp: reslice_def len_def split: if_splits)
      have le: "i + len msg \<le> len buf" using fits lm by simp
      have "take (i + len msg) (vis buf) = take i (vis buf) @ vis msg"
        using vm lm by (simp add: take_add)
      with "1.prems"(3)
      have inv: "concat (map (\<lambda>m. vis (Data m)) (messages @ [\<lparr>T = IdentifyType msg, Data = msg\<rparr>]))
                = take (i + len msg) (vis buf)" by simp
      from "1.IH"[OF True h(1) h(2) fits m(1) _ m(3) le inv] m(2) show ?thesis by simp
    qed
  qed
qed

lemma Parse_partition:
  assumes "Parse buf = Inr (ms, chunk)"
  shows "concat (map (\<lambda>m. vis (Data m)) ms) @ bytes_of chunk = vis buf"
  using Parse_loop_partition[of buf 0 "[]" ms chunk] assms by (simp add: Parse_def)

subsection \<open>Claims on Parse\<close>

text \<open>
  Claim C1. A well-formed byte stream is a run of unchunked frames
  \<open>LL LL <payload> 00 00\<close>. On every such buffer, and also when a truncated frame whose
  length prefix can be read follows the run, \<open>Parse\<close> returns, with a nil error, and
  the \<open>Data\<close> of the returned messages, concatenated in order and followed by the
  returned tail, are the bytes of the buffer.
\<close>

theorem Parse_reproduces_input:
  assumes "\<forall>f\<in>set frames. is_frame f"
      and "vis buf = concat frames @ rest"
      and "rest = [] \<or> truncated_frame rest (spare buf)"
  shows "\<exists>messages tail. Parse buf = Inr (messages, tail)
           \<and> concat (map (\<lambda>m. vis (Data m)) messages) @ bytes_of tail = vis buf"
proof -
  have "vis buf = [] @ concat frames @ rest" using assms(2) by simp
  from Parse_loop_frames[OF assms(1) this assms(3), of "[]"]
  have p: "Parse buf = Inr (frame_msgs frames (rest @ spare buf), tail_of rest (spare buf))"
    by (simp add: Parse_def)
  have "bytes_of (tail_of rest (spare buf)) = rest" by (simp add: bytes_of_def tail_of_def)
  with p assms(2) show ?thesis by (simp add: frame_msgs_Data)
qed

text \<open>A BEGIN and a PULL frame, then three bytes of a frame that declares nine.\<close>

theorem Parse_reproduces_input_witness:
  "is_frame [0x00, 0x03, 0xb1, 0x11, 0xa0, 0x00, 0x00]
   \<and> is_frame [0x00, 0x02, 0xb0, 0x3f, 0x00, 0x00]
   \<and> truncated_frame [0x00, 0x09, 0xb1] []
   \<and> (\<exists>messages tail.
         Parse \<lparr>vis = [0x00, 0x03, 0xb1, 0x11, 0xa0, 0x00, 0x00,
                       0x00, 0x02, 0xb0, 0x3f, 0x00, 0x00, 0x00, 0x09, 0xb1], spare = []\<rparr>
           = Inr (messages, tail)
         \<and> concat (map (\<lambda>m. vis (Data m)) messages) @ bytes_of tail
           = [0x00, 0x03, 0xb1, 0x11, 0xa0, 0x00, 0x00,
              0x00, 0x02, 0xb0, 0x3f, 0x00, 0x00, 0x00, 0x09, 0xb1])"
  using Parse_reproduces_input[of
      "[[0x00, 0x03, 0xb1, 0x11, 0xa0, 0x00, 0x00], [0x00, 0x02, 0xb0, 0x3f, 0x00, 0x00]]"
      "\<lparr>vis = [0x00, 0x03, 0xb1, 0x11, 0xa0, 0x00, 0x00,
              0x00, 0x02, 0xb0, 0x3f, 0x00, 0x00, 0x00, 0x09, 0xb1], spare = []\<rparr>"
      "[0x00, 0x09, 0xb1]"]
  by (simp add: is_frame_def truncated_frame_def declared_length_def)

text \<open>
  A buffer whose final frame is truncated: complete frames, then a frame whose declared
  length plus 4 exceeds the bytes remaining at its offset. Where the length prefix of
  that frame can be read, \<open>Parse\<close> returns with a nil error; the messages are the
  complete frames, in order and typed by \<open>IdentifyType\<close>, and the tail is the truncated
  remainder.
\<close>

lemma Parse_truncated_final_frame:
  assumes "\<forall>f\<in>set frames. is_frame f"
      and "vis buf = concat frames @ rest"
      and "truncated_frame rest (spare buf)"
  shows "\<exists>messages. Parse buf = Inr (messages, Some \<lparr>vis = rest, spare = spare buf\<rparr>)
           \<and> map (\<lambda>m. vis (Data m)) messages = frames
           \<and> (\<forall>m\<in>set messages. T m = IdentifyType (Data m))"
proof -
  have "vis buf = [] @ concat frames @ rest" using assms(2) by simp
  moreover have "rest = [] \<or> truncated_frame rest (spare buf)" using assms(3) by simp
  ultimately have "Parse buf = Inr (frame_msgs frames (rest @ spare buf), tail_of rest (spare buf))"
    using Parse_loop_frames[OF assms(1), of buf "[]" rest "[]"] by (simp add: Parse_def)
  moreover have "rest \<noteq> []" using assms(3) by (simp add: truncated_frame_def)
  ultimately show ?thesis using frame_msgs_T[of frames "rest @ spare buf"]
    by (simp add: tail_of_def frame_msgs_Data)
qed

text \<open>
  One RESET frame, then a lone byte of the next frame in a buffer that has spare
  capacity, as a read buffer that is not full has; and the same frame with three bytes of
  the next one in a buffer that has none.
\<close>

lemma Parse_truncated_final_frame_examples:
  "\<exists>messages.
      Parse \<lparr>vis = [0x00, 0x02, 0xb0, 0x0f, 0x00, 0x00, 0x00], spare = [0xff, 0xff]\<rparr>
        = Inr (messages, Some \<lparr>vis = [0x00], spare = [0xff, 0xff]\<rparr>)
      \<and> map (\<lambda>m. vis (Data m)) messages = [[0x00, 0x02, 0xb0, 0x0f, 0x00, 0x00]]
      \<and> map T messages = [ResetMsg]"
  "\<exists>messages.
      Parse \<lparr>vis = [0x00, 0x02, 0xb0, 0x0f, 0x00, 0x00, 0x00, 0x09, 0xb1], spare = []\<rparr>
        = Inr (messages, Some \<lparr>vis = [0x00, 0x09, 0xb1], spare = []\<rparr>)
      \<and> map (\<lambda>m. vis (Data m)) messages = [[0x00, 0x02, 0xb0, 0x0f, 0x00, 0x00]]
      \<and> map T messages = [ResetMsg]"
  using Parse_truncated_final_frame[of
      "[[0x00, 0x02, 0xb0, 0x0f, 0x00, 0x00]]"
      "\<lparr>vis = [0x00, 0x02, 0xb0, 0x0f, 0x00, 0x00, 0x00], spare = [0xff, 0xff]\<rparr>"
      "[0x00]"]
    Parse_truncated_final_frame[of
      "[[0x00, 0x02, 0xb0, 0x0f, 0x00, 0x00]]"
      "\<lparr>vis = [0x00, 0x02, 0xb0, 0x0f, 0x00, 0x00, 0x00, 0x09, 0xb1], spare = []\<rparr>"
      "[0x00, 0x09, 0xb1]"]
  by (auto simp: is_frame_def truncated_frame_def declared_length_def
        IdentifyType_def TypeFromByte_def len_def)

text \<open>
  Claim C4 has \<open>Parse\<close> return the complete frames and the truncated bytes for every
  buffer whose final frame is truncated. One truncation the code does not survive: a
  single byte of the final frame at the very end of the backing array. \<open>Parse\<close> reads
  the length prefix with \<open>buf[i : i+2]\<close> under the test \<open>i < len(buf)\<close> alone, and the
  read is out of the slice's bounds: it panics, whatever complete frames come before.
\<close>

theorem Parse_lone_byte_panics:
  assumes "\<forall>f\<in>set frames. is_frame f"
  shows "Parse \<lparr>vis = concat frames @ [b], spare = []\<rparr> = Inl slice_bounds_out_of_range"
proof -
  let ?buf = "\<lparr>vis = concat frames @ [b], spare = []\<rparr>"
  have "vis ?buf = [] @ concat frames @ [b]" by simp
  from Parse_loop_skip_frames[OF assms this, of "[]"]
  have "Parse ?buf = Parse_loop ?buf (length (concat frames)) (frame_msgs frames [b])"
    by (simp add: Parse_def)
  also have "\<dots> = Inl slice_bounds_out_of_range"
    by (subst Parse_loop.simps) (simp add: len_def reslice_def cap_def)
  finally show ?thesis .
qed

text \<open>One RESET frame and the first byte of the next frame, in a slice of capacity 7.\<close>

theorem Parse_lone_byte_panics_witness:
  "is_frame [0x00, 0x02, 0xb0, 0x0f, 0x00, 0x00]
   \<and> Parse \<lparr>vis = [0x00, 0x02, 0xb0, 0x0f, 0x00, 0x00, 0x00], spare = []\<rparr>
       = Inl (Panic ''runtime error: slice bounds out of range'')"
  using Parse_lone_byte_panics[of "[[0x00, 0x02, 0xb0, 0x0f, 0x00, 0x00]]" "0x00"]
  by (simp add: is_frame_def declared_length_def slice_bounds_out_of_range_def)

text \<open>
  Claim C5. A frame of the declared length is fully present and does not end with
  \<open>00 00\<close>: the claim has \<open>Parse\<close> return the error "bad message: missing suffix". The
  source panics on the line before that \<open>return\<close>, so no error reaches the caller. The
  theorem is what the code does: after any run of complete frames, such a frame makes
  \<open>Parse\<close> panic.
\<close>

theorem Parse_missing_suffix_panics:
  assumes "\<forall>f\<in>set frames. is_frame f"
      and "vis buf = concat frames @ g @ rest"
      and "2 \<le> length g" and "declared_length g + 4 = length g"
      and "drop (length g - 2) g \<noteq> [0x00, 0x00]"
  shows "Parse buf = Inl (Panic ''DEBUG [bad message]'')"
proof -
  have "vis buf = [] @ concat frames @ (g @ rest)" using assms(2) by simp
  from Parse_loop_skip_frames[OF assms(1) this, of "[]"]
  have "Parse buf = Parse_loop buf (length (concat frames)) (frame_msgs frames ((g @ rest) @ spare buf))"
    by (simp add: Parse_def)
  moreover have "vis buf = concat frames @ g @ rest" by (fact assms(2))
  note Parse_loop_bad_frame[OF this assms(3,4,5)]
  ultimately show ?thesis by simp
qed

text \<open>A frame declaring three bytes of payload that ends with \<open>01 02\<close>.\<close>

theorem Parse_missing_suffix_panics_witness:
  "declared_length [0x00, 0x03, 0xb1, 0x11, 0xa0, 0x01, 0x02] + 4 = 7
   \<and> Parse \<lparr>vis = [0x00, 0x03, 0xb1, 0x11, 0xa0, 0x01, 0x02], spare = []\<rparr>
       = Inl (Panic ''DEBUG [bad message]'')
   \<and> Parse \<lparr>vis = [0x00, 0x03, 0xb1, 0x11, 0xa0, 0x01, 0x02], spare = []\<rparr>
       \<noteq> Inl (Err ''bad message: missing suffix'')"
  using Parse_missing_suffix_panics[of "[]"
      "\<lparr>vis = [0x00, 0x03, 0xb1, 0x11, 0xa0, 0x01, 0x02], spare = []\<rparr>"
      "[0x00, 0x03, 0xb1, 0x11, 0xa0, 0x01, 0x02]" "[]"]
  by (simp add: declared_length_def)

subsection \<open>Claim on IdentifyType\<close>

lemma TypeFromByte_dispatch: "TypeFromByte b = dispatch b"
  by (simp add: TypeFromByte_def dispatch_def dispatch_table_def)

text \<open>
  Claim C7. \<open>IdentifyType\<close> is NOP on fewer than four bytes; otherwise it looks the
  dispatch byte up in the table of the specification, UNKNOWN for a byte the table does
  not have, and the dispatch byte is byte 3 when byte 0 is zero, byte 2 otherwise.
\<close>

theorem IdentifyType_dispatch_table:
  "IdentifyType buf =
     (if len buf < 4 then NopMsg
      else dispatch (if vis buf ! 0 = 0x00 then vis buf ! 3 else vis buf ! 2))"
  by (simp add: IdentifyType_def TypeFromByte_dispatch)

text \<open>The RECORD message \<open>00 04 B1 71 91 01 00 00\<close>, and a byte the table lacks.\<close>

theorem IdentifyType_dispatch_table_witness:
  "IdentifyType \<lparr>vis = [0x00, 0x04, 0xb1, 0x71, 0x91, 0x01, 0x00, 0x00], spare = []\<rparr> = RecordMsg
   \<and> IdentifyType \<lparr>vis = [0x01, 0x04, 0x55, 0x71], spare = []\<rparr> = UnknownMsg
   \<and> IdentifyType \<lparr>vis = [0x00, 0x00, 0x01], spare = [0x01]\<rparr> = NopMsg"
  using IdentifyType_dispatch_table[of "\<lparr>vis = [0x00, 0x04, 0xb1, 0x71, 0x91, 0x01, 0x00, 0x00], spare = []\<rparr>"]
    IdentifyType_dispatch_table[of "\<lparr>vis = [0x01, 0x04, 0x55, 0x71], spare = []\<rparr>"]
    IdentifyType_dispatch_table[of "\<lparr>vis = [0x00, 0x00, 0x01], spare = [0x01]\<rparr>"]
  by (simp add: len_def dispatch_def dispatch_table_def)

section \<open>The routing table: the properties of getNewRoutingTable\<close>

lemma listed_hosts_iff: "h \<in> listed_hosts m \<longleftrightarrow> (\<exists>db r. m db = Some r \<and> h \<in> set r)"
  by (auto simp: listed_hosts_def ran_def)

lemma dom_add_hosts: "dom (add_hosts hosts m) = dom m \<union> set hosts"
  unfolding add_hosts_def by (induction hosts arbitrary: m) auto

lemma listed_hosts_upd:
  assumes "m db = None \<or> m db = Some r"
  shows "listed_hosts (m(db \<mapsto> r)) = listed_hosts m \<union> set r"
proof (cases "m db")
  case None
  then show ?thesis by (auto simp: listed_hosts_def)
next
  case (Some r')
  with assms have "m(db \<mapsto> r) = m" by (auto simp: fun_upd_idem_iff)
  moreover have "m db = Some r" using Some assms by simp
  then have "r \<in> ran m" by (rule ranI)
  then have "set r \<subseteq> listed_hosts m" unfolding listed_hosts_def by blast
  ultimately show ?thesis by auto
qed

lemma build_tables_Hosts:
  assumes "dom (Hosts rt) = listed_hosts (readers rt) \<union> listed_hosts (writers rt)"
      and "\<And>db r. readers rt db = Some r \<Longrightarrow> \<exists>t. tableMap db = Some t \<and> r = tbl_readers t"
      and "\<And>db w. writers rt db = Some w \<Longrightarrow> \<exists>t. tableMap db = Some t \<and> w = tbl_writers t"
  shows "dom (Hosts (build_tables order tableMap rt))
           = listed_hosts (readers (build_tables order tableMap rt))
             \<union> listed_hosts (writers (build_tables order tableMap rt))"
  using assms
proof (induction order arbitrary: rt)
  case Nil
  then show ?case by simp
next
  case (Cons db dbs)
  show ?case
  proof (cases "tableMap db")
    case None
    with Cons show ?thesis by simp
  next
    case (Some t)
    let ?rt = "rt\<lparr>readers := (readers rt)(db \<mapsto> tbl_readers t),
                  writers := (writers rt)(db \<mapsto> tbl_writers t),
                  Ttl := tbl_ttl t,
                  Hosts := add_hosts (tbl_writers t) (add_hosts (tbl_readers t) (Hosts rt))\<rparr>"
    have r: "readers rt db = None \<or> readers rt db = Some (tbl_readers t)"
      using Cons.prems(2)[of db] Some by (cases "readers rt db") auto
    have w: "writers rt db = None \<or> writers rt db = Some (tbl_writers t)"
      using Cons.prems(3)[of db] Some by (cases "writers rt db") auto
    have 1: "dom (Hosts ?rt) = listed_hosts (readers ?rt) \<union> listed_hosts (writers ?rt)"
      using Cons.prems(1) by (auto simp: dom_add_hosts listed_hosts_upd[of "readers rt" db "tbl_readers t", OF r]
               listed_hosts_upd[of "writers rt" db "tbl_writers t", OF w])
    have 2: "\<And>db' r. readers ?rt db' = Some r \<Longrightarrow> \<exists>t. tableMap db' = Some t \<and> r = tbl_readers t"
      using Cons.prems(2) Some by (auto split: if_splits)
    have 3: "\<And>db' w. writers ?rt db' = Some w \<Longrightarrow> \<exists>t. tableMap db' = Some t \<and> w = tbl_writers t"
      using Cons.prems(3) Some by (auto split: if_splits)
    from Cons.IH[OF 1 2 3] Some show ?thesis by simp
  qed
qed

text \<open>
  Claim C3. In every routing table \<open>getNewRoutingTable\<close> returns, the keys of \<open>Hosts\<close>
  are the hosts of the value lists of \<open>readers\<close> and \<open>writers\<close>, whatever the order of
  the \<open>range\<close> over \<open>tableMap\<close>.
\<close>

theorem getNewRoutingTable_Hosts:
  assumes "getNewRoutingTable d order now = Inr rt"
  shows "dom (Hosts rt) = listed_hosts (readers rt) \<union> listed_hosts (writers rt)"
proof -
  from assms obtain tableMap name0 where
    rt: "rt = build_tables order tableMap
                \<lparr>DefaultDb = name0, readers = Map.empty, writers = Map.empty,
                 Hosts = Map.empty, Ttl = 0, CreatedAt = now\<rparr>"
    by (auto simp: getNewRoutingTable_def split: sum.splits list.splits)
  show ?thesis unfolding rt
    by (rule build_tables_Hosts) (simp_all add: listed_hosts_def)
qed

theorem getNewRoutingTable_Hosts_witness:
  "\<exists>rt. getNewRoutingTable example_driver [''neo4j''] 0 = Inr rt
         \<and> dom (Hosts rt) = listed_hosts (readers rt) \<union> listed_hosts (writers rt)
         \<and> dom (Hosts rt) = {''h1:7687'', ''h2:7687'', ''h3:7687''}"
proof -
  have "\<exists>rt. getNewRoutingTable example_driver [''neo4j''] 0 = Inr rt
         \<and> dom (Hosts rt) = {''h1:7687'', ''h2:7687'', ''h3:7687''}"
    by (auto simp: example_driver_def example_rows_def getNewRoutingTable_def queryDbNames_def
          queryRoutingTable_def routingTableTx_def Get_def add_hosts_def)
  then obtain rt where rt: "getNewRoutingTable example_driver [''neo4j''] 0 = Inr rt"
    and h: "dom (Hosts rt) = {''h1:7687'', ''h2:7687'', ''h3:7687''}" by blast
  from getNewRoutingTable_Hosts[OF rt] rt h show ?thesis by blast
qed









section \<open>Authentication: the properties of Authenticate\<close>

lemmas eval_slices = len_def cap_def index_def reslice_def slice_from_def

lemmas eval_tiny_map =
  ParseTinyMap.simps tiny_map_members.simps ParseTinyString_def ParseTinyInt_def
  gostring_def char_of_def bit_Suc_0_iff as_panic_def

lemma hello_neo4j_map:
  "\<exists>payload. slice_from (Data hello_neo4j) 4 = Some payload
      \<and> ParseTinyMap payload = Inr ([(''principal'', PStr ''neo4j'')], 17)"
  by (simp add: hello_neo4j_def eval_slices eval_tiny_map)



lemma example_backend_RoutingTable:
  "clock env = 1 \<Longrightarrow> Backend_RoutingTable example_backend env = Inr (example_rt, example_backend)"
  by (simp add: Backend_RoutingTable_def example_backend_def example_rt_def Expired_def)

lemma example_rt_writers: "fst (WritersFor example_rt (DefaultDb example_rt)) = [''h1:7687'']"
  by (simp add: WritersFor_def example_rt_def)

lemma fold_conns_dom:
  "w \<in> dom conns \<Longrightarrow> w \<in> dom (fold (\<lambda>(host, c) conns. conns(host \<mapsto> c)) pairs conns)"
  by (induction pairs arbitrary: conns) (auto split: prod.splits)

text \<open>
  Claim C2. Where \<open>Authenticate\<close> gets as far as authenticating (the HELLO decodes to a
  map with a string principal, the backend has a routing table, the default database has
  a writer), its first call of \<open>authClient\<close> is for the first writer of the default
  database; and if that call fails, \<open>Authenticate\<close> ends with that failure and has
  called \<open>authClient\<close> for no other host.
\<close>

theorem Authenticate_probe_first:
  assumes "T hello = HelloMsg"
      and "slice_from (Data hello) 4 = Some payload"
      and "ParseTinyMap payload = Inr (msg, pos)"
      and "map_of msg ''principal'' = Some (PStr p)"
      and "Backend_RoutingTable b env = Inr (rt, b')"
      and "fst (WritersFor rt (DefaultDb rt)) = w # ws"
  shows "(\<exists>others. attempts (Authenticate b hello env) = w # others)
         \<and> (\<forall>f. authClient env (Data hello) ''tcp'' w (tls b') = Inl f
                \<longrightarrow> outcome (Authenticate b hello env) = Inl f
                    \<and> attempts (Authenticate b hello env) = [w])"
  using assms by (auto simp: Authenticate_def split: sum.splits)

text \<open>Three hosts, \<open>h1\<close> the default writer and rejecting the HELLO: no call for \<open>h2\<close> or \<open>h3\<close>.\<close>

theorem Authenticate_probe_first_witness:
  "outcome (Authenticate example_backend hello_neo4j env_h1_rejects) = Inl (Err ''unauthorized'')
   \<and> attempts (Authenticate example_backend hello_neo4j env_h1_rejects) = [''h1:7687'']
   \<and> dom (Hosts example_rt) = {''h1:7687'', ''h2:7687'', ''h3:7687''}"
proof -
  obtain payload where p: "slice_from (Data hello_neo4j) 4 = Some payload"
    and m: "ParseTinyMap payload = Inr ([(''principal'', PStr ''neo4j'')], 17)"
    using hello_neo4j_map by blast
  have t: "T hello_neo4j = HelloMsg" by (simp add: hello_neo4j_def)
  have k: "map_of [(''principal'', PStr ''neo4j'')] ''principal'' = Some (PStr ''neo4j'')" by simp
  have r: "Backend_RoutingTable example_backend env_h1_rejects = Inr (example_rt, example_backend)"
    by (rule example_backend_RoutingTable) (simp add: env_h1_rejects_def)
  have a: "authClient env_h1_rejects (Data hello_neo4j) ''tcp'' ''h1:7687'' (tls example_backend)
             = Inl (Err ''unauthorized'')"
    by (simp add: env_h1_rejects_def)
  from Authenticate_probe_first[OF t p m k r example_rt_writers] a
  show ?thesis by (auto simp: example_rt_def)
qed

text \<open>In every other case \<open>Authenticate\<close> ends before it calls \<open>authClient\<close> at all.\<close>

lemma Authenticate_attempts_Nil_or_probe:
  "attempts (Authenticate b hello env) = []
   \<or> (\<exists>rt b' ws. Backend_RoutingTable b env = Inr (rt, b')
         \<and> fst (WritersFor rt (DefaultDb rt)) = hd (attempts (Authenticate b hello env)) # ws)"
  by (auto simp: Authenticate_def split: sum.splits option.splits pval.splits list.splits)

text \<open>
  Claim C10. Whenever \<open>Authenticate\<close> returns without error, the first writer of the
  default database of the routing table it used is a key of the returned map, which
  therefore is not empty.
\<close>

theorem Authenticate_success_has_default_writer:
  assumes "outcome (Authenticate b hello env) = Inr conns"
  shows "\<exists>rt b' w ws. Backend_RoutingTable b env = Inr (rt, b')
           \<and> fst (WritersFor rt (DefaultDb rt)) = w # ws
           \<and> w \<in> dom conns \<and> conns \<noteq> Map.empty"
proof -
  from assms obtain rt b' w ws conn pairs where
    r: "Backend_RoutingTable b env = Inr (rt, b')" "fst (WritersFor rt (DefaultDb rt)) = w # ws"
    and c: "conns = fold (\<lambda>(host, c) conns. conns(host \<mapsto> c)) pairs [w \<mapsto> NewDirectConn conn]"
    by (auto simp: Authenticate_def split: sum.splits option.splits pval.splits list.splits if_splits)
  have "w \<in> dom [w \<mapsto> NewDirectConn conn]" by simp
  from fold_conns_dom[OF this] c have "w \<in> dom conns" by simp
  then have "conns \<noteq> Map.empty" by auto
  with r \<open>w \<in> dom conns\<close> show ?thesis by blast
qed

text \<open>\<open>h1\<close> and \<open>h2\<close> accept, \<open>h3\<close> rejects: the map has \<open>h1\<close> and \<open>h2\<close>.\<close>

theorem Authenticate_success_has_default_writer_witness:
  "\<exists>conns. outcome (Authenticate example_backend hello_neo4j env_h3_rejects) = Inr conns
      \<and> ''h1:7687'' \<in> dom conns \<and> conns \<noteq> Map.empty
      \<and> dom conns = {''h1:7687'', ''h2:7687''}"
proof -
  obtain payload where p: "slice_from (Data hello_neo4j) 4 = Some payload"
    and m: "ParseTinyMap payload = Inr ([(''principal'', PStr ''neo4j'')], 17)"
    using hello_neo4j_map by blast
  have t: "T hello_neo4j = HelloMsg" by (simp add: hello_neo4j_def)
  have r: "Backend_RoutingTable example_backend env_h3_rejects = Inr (example_rt, example_backend)"
    by (rule example_backend_RoutingTable) (simp add: env_h3_rejects_def)
  have a: "authClient env_h3_rejects (Data hello_neo4j) ''tcp'' host (tls example_backend)
             = (if host = ''h3:7687'' then Inl (Err ''unauthorized'')
                else if host = ''h1:7687'' then Inr 1 else Inr 2)" for host
    by (simp add: env_h3_rejects_def)
  have h: "hosts_order env_h3_rejects = [''h3:7687'', ''h1:7687'', ''h2:7687'']"
    by (simp add: env_h3_rejects_def)
  have "\<exists>conns. outcome (Authenticate example_backend hello_neo4j env_h3_rejects) = Inr conns
          \<and> dom conns = {''h1:7687'', ''h2:7687''}"
    by (auto simp: Authenticate_def t p m r example_rt_writers a h)
  then obtain conns where
    o: "outcome (Authenticate example_backend hello_neo4j env_h3_rejects) = Inr conns"
    and d: "dom conns = {''h1:7687'', ''h2:7687''}" by blast
  from Authenticate_success_has_default_writer[OF o] r example_rt_writers
  have "''h1:7687'' \<in> dom conns \<and> conns \<noteq> Map.empty" by auto
  with o d show ?thesis by blast
qed





section \<open>The monitor: the halt signal\<close>

text \<open>The loop has no way out but the end of the process.\<close>

lemma monitor_loop_never_returns: "monitor_loop m evs \<noteq> Returned"
  by (induction m evs rule: monitor_loop.induct) (auto split: sum.splits)

lemma NewMonitor_never_returns: "NewMonitor d order now evs \<noteq> Returned"
  by (simp add: NewMonitor_def monitor_loop_never_returns split: sum.splits)

text \<open>
  Claim C9 has the refresh loop stop the timer and return on the halt signal. The code
  stops the ticker and stays in the loop: after the halt signal the goroutine is back in
  its \<open>select\<close>, and the next thing it can receive with the ticker stopped, the firing of
  \<open>time.After(5 * rt.Ttl)\<close>, ends the process with \<open>log.Fatalf\<close>.
\<close>

theorem monitor_loop_halt_goes_on:
  "monitor_loop m (HaltReceived # evs) = monitor_loop (m\<lparr>ticker_running := False\<rparr>) evs
   \<and> monitor_loop m (HaltReceived # evs) \<noteq> Returned
   \<and> monitor_loop m [HaltReceived] = Selecting (m\<lparr>ticker_running := False\<rparr>)
   \<and> monitor_loop m [HaltReceived, WatchdogFired] = Died (Fatal ''monitor timeout reached'')"
  by (simp add: monitor_loop_never_returns)

text \<open>The monitor of the example cluster, halted after its first table.\<close>

theorem monitor_loop_halt_goes_on_witness:
  "NewMonitor example_driver [''neo4j''] 0 [HaltReceived, WatchdogFired]
     = Died (Fatal ''monitor timeout reached'')"
proof -
  have "\<exists>m. NewMonitor example_driver [''neo4j''] 0 [HaltReceived, WatchdogFired]
               = monitor_loop m [HaltReceived, WatchdogFired]"
    by (auto simp: NewMonitor_def example_driver_def example_rows_def getNewRoutingTable_def
          queryDbNames_def queryRoutingTable_def routingTableTx_def Get_def
          simp del: monitor_loop.simps)
  then obtain m where "NewMonitor example_driver [''neo4j''] 0 [HaltReceived, WatchdogFired]
               = monitor_loop m [HaltReceived, WatchdogFired]" by blast
  with monitor_loop_halt_goes_on[of m "[WatchdogFired]"] show ?thesis by simp
qed


end
